theory Spec2Isabelle
  imports Main "HOL-Library.Word"
begin

unbundle bit_operations_syntax

section \<open>The terminal and the process state\<close>

text \<open>
  The program of \<^verbatim>\<open>key_code.cpp\<close> talks to a terminal through \<^verbatim>\<open>tcgetattr\<close>,
  \<^verbatim>\<open>tcsetattr\<close>, \<^verbatim>\<open>atexit\<close> and \<^verbatim>\<open>read\<close>. The model threads one record through
  every function: the program's globals, the terminal's settings for standard input,
  what the terminal is going to deliver, and what the program has printed and read so
  far. Standard input is taken to be a terminal, so that \<^verbatim>\<open>tcgetattr\<close> and
  \<^verbatim>\<open>tcsetattr\<close> succeed.
\<close>

type_synonym byte = "8 word"
type_synonym tcflag_t = "32 word"
type_synonym cc_t = "8 word"
type_synonym speed_t = "32 word"
type_synonym size_t = "64 word"

text \<open>\<^verbatim>\<open>struct termios\<close> of \<^verbatim>\<open>termios.h\<close>; \<open>c_cc\<close> is indexed by \<open>VMIN\<close>, \<open>VTIME\<close>, ...\<close>

record termios =
  c_iflag :: tcflag_t
  c_oflag :: tcflag_t
  c_cflag :: tcflag_t
  c_lflag :: tcflag_t
  c_line :: cc_t
  c_cc :: "nat \<Rightarrow> cc_t"
  c_ispeed :: speed_t
  c_ospeed :: speed_t

text \<open>The values of \<^verbatim>\<open>termios.h\<close> on Linux (the code is under \<^verbatim>\<open>#if __linux__\<close>).\<close>

definition VTIME :: nat where "VTIME = 5"
definition VMIN :: nat where "VMIN = 6"

definition IGNBRK :: tcflag_t where "IGNBRK = 0x1"
definition BRKINT :: tcflag_t where "BRKINT = 0x2"
definition PARMRK :: tcflag_t where "PARMRK = 0x8"
definition ISTRIP :: tcflag_t where "ISTRIP = 0x20"
definition INLCR :: tcflag_t where "INLCR = 0x40"
definition IGNCR :: tcflag_t where "IGNCR = 0x80"
definition ICRNL :: tcflag_t where "ICRNL = 0x100"
definition IXON :: tcflag_t where "IXON = 0x400"
definition OPOST :: tcflag_t where "OPOST = 0x1"
definition ISIG :: tcflag_t where "ISIG = 0x1"
definition ICANON :: tcflag_t where "ICANON = 0x2"
definition ECHO :: tcflag_t where "ECHO = 0x8"
definition ECHONL :: tcflag_t where "ECHONL = 0x40"
definition IEXTEN :: tcflag_t where "IEXTEN = 0x8000"
definition CSIZE :: tcflag_t where "CSIZE = 0x30"
definition CS8 :: tcflag_t where "CS8 = 0x30"
definition PARENB :: tcflag_t where "PARENB = 0x100"

text \<open>
  What the terminal delivers, in the order a reader meets it: a byte that has arrived
  by the time it is asked for, a silence longer than the poll window of a tenth of a
  second, or a \<^verbatim>\<open>read\<close> call that fails. Bytes that stand next to each other have
  arrived together. The end of the list is the end of the input.
\<close>

datatype tty_item = Byte byte | Quiet | Fault

text \<open>The functions handed to \<^verbatim>\<open>atexit\<close>; the program has one.\<close>

datatype exit_hook = Hook_disable_raw_mode

text \<open>\<^verbatim>\<open>enum class vkey_t : u_int8_t\<close> of \<^verbatim>\<open>key_code.cpp\<close>, lines 160 to 188.\<close>

datatype vkey_t =
    none
  | F1 | F2 | F3 | F4 | F5 | F6 | F7 | F8 | F9 | F10 | F11 | F12
  | HOME | END | UP_ARROW | DOWN_ARROW | LEFT_ARROW | RIGHT_ARROW
  | PAGE_UP | PAGE_DOWN | INSERT | DELETE
  | ESC | BACKSPACE | ENTER | TAB

text \<open>One \<^verbatim>\<open>printf\<close> of the program each.\<close>

datatype out =
    Text_line "16 word" "16 word" \<comment> \<open>\<^verbatim>\<open>text(%d %d)\<close> of \<^verbatim>\<open>main\<close>\<close>
  | Ruler_line "byte list"       \<comment> \<open>the digits of the ruler and its \<^verbatim>\<open>*\<close>\<close>
  | Orig_termios_line cc_t cc_t  \<comment> \<open>\<^verbatim>\<open>orig_termios(%x %x)\<close> of \<^verbatim>\<open>enable_raw_mode\<close>\<close>
  | Rdret_line size_t            \<comment> \<open>\<^verbatim>\<open>%lu)\<close> after the read of \<^verbatim>\<open>immediate_next\<close>\<close>
  | Rdret_arrow size_t           \<comment> \<open>\<^verbatim>\<open>%lu->\<close>\<close>
  | Key_seq_line "byte list"     \<comment> \<open>\<^verbatim>\<open>key seq - \<close> and the bytes of a sequence that was found\<close>
  | Vk_input vkey_t              \<comment> \<open>\<^verbatim>\<open>vk        input - %hu\<close>\<close>
  | Character_input byte         \<comment> \<open>\<^verbatim>\<open>character input - %c\<close>\<close>

text \<open>
  One entry for each \<^verbatim>\<open>read\<close> call: whether the terminal was set to wait for a byte,
  the size asked for, and the value returned.
\<close>

type_synonym rd_entry = "bool \<times> nat \<times> size_t"

record proc =
  orig_termios :: termios        \<comment> \<open>global, line 12\<close>
  bset_exit :: bool              \<comment> \<open>global, line 13\<close>
  exit_hooks :: "exit_hook list" \<comment> \<open>registered with \<^verbatim>\<open>atexit\<close>, latest first\<close>
  tty :: termios                 \<comment> \<open>the terminal's settings for standard input\<close>
  winsize :: "16 word \<times> 16 word"  \<comment> \<open>rows and columns of the terminal window\<close>
  input :: "tty_item list"
  stdout :: "out list"
  rd_log :: "rd_entry list"

section \<open>The raw-mode controller\<close>

datatype raw_mode_t = immediate_no_echo | immediate_no_echo_ignore_signals

datatype queue_selector = TCSANOW | TCSAFLUSH

definition is_Byte :: "tty_item \<Rightarrow> bool" where
  "is_Byte x = (case x of Byte b \<Rightarrow> True | _ \<Rightarrow> False)"

definition tcgetattr :: "proc \<Rightarrow> termios" where
  "tcgetattr w = tty w"

text \<open>
  \<^verbatim>\<open>tcsetattr\<close>: with \<open>TCSAFLUSH\<close> the input that has been received and not read is
  discarded before the change is made.
\<close>

definition tcsetattr :: "queue_selector \<Rightarrow> termios \<Rightarrow> proc \<Rightarrow> proc" where
  "tcsetattr act t w =
     (case act of
        TCSANOW \<Rightarrow> w\<lparr>tty := t\<rparr>
      | TCSAFLUSH \<Rightarrow> w\<lparr>input := dropWhile is_Byte (input w), tty := t\<rparr>)"

definition atexit :: "exit_hook \<Rightarrow> proc \<Rightarrow> proc" where
  "atexit h w = w\<lparr>exit_hooks := h # exit_hooks w\<rparr>"

text \<open>
  \<^verbatim>\<open>cfmakeraw\<close> is the C library's; this is what \<^verbatim>\<open>termios(3)\<close> says it does (glibc
  also sets \<open>VMIN\<close> to 1 and \<open>VTIME\<close> to 0, which \<^verbatim>\<open>enable_raw_mode\<close> overwrites).
\<close>

definition cfmakeraw :: "termios \<Rightarrow> termios" where
  "cfmakeraw t = t\<lparr>
     c_iflag := c_iflag t AND NOT (IGNBRK OR BRKINT OR PARMRK OR ISTRIP OR INLCR OR IGNCR OR ICRNL OR IXON),
     c_oflag := c_oflag t AND NOT OPOST,
     c_lflag := c_lflag t AND NOT (ECHO OR ECHONL OR ICANON OR ISIG OR IEXTEN),
     c_cflag := (c_cflag t AND NOT (CSIZE OR PARENB)) OR CS8,
     c_cc := (c_cc t)(VMIN := 1, VTIME := 0)\<rparr>"

text \<open>\<^verbatim>\<open>disable_raw_mode\<close>, \<^verbatim>\<open>key_code.cpp\<close> line 22.\<close>

definition disable_raw_mode :: "proc \<Rightarrow> proc" where
  "disable_raw_mode w = tcsetattr TCSAFLUSH (orig_termios w) w"

text \<open>
  \<^verbatim>\<open>enable_raw_mode\<close>, \<^verbatim>\<open>key_code.cpp\<close> lines 81 to 148: the guarded first-call
  block, the \<^verbatim>\<open>switch\<close> on the mode, the \<open>VMIN\<close> and \<open>VTIME\<close> pair, \<^verbatim>\<open>tcsetattr\<close>.
\<close>

definition enable_raw_mode :: "bool \<Rightarrow> raw_mode_t \<Rightarrow> proc \<Rightarrow> proc" where
  "enable_raw_mode wait_for_input mode w =
     (let w1 =
            (if \<not> bset_exit w then
               let wa = atexit Hook_disable_raw_mode w;
                   wb = wa\<lparr>orig_termios := tcgetattr wa\<rparr>;
                   wc = wb\<lparr>stdout := stdout wb @
                          [Orig_termios_line (c_cc (orig_termios wb) VMIN)
                                             (c_cc (orig_termios wb) VTIME)]\<rparr>
               in wc\<lparr>bset_exit := True\<rparr>
             else w);
          raw = tcgetattr w1;
          raw1 =
            (case mode of
               immediate_no_echo \<Rightarrow> raw\<lparr>c_lflag := c_lflag raw AND NOT (ECHO OR ICANON)\<rparr>
             | immediate_no_echo_ignore_signals \<Rightarrow> cfmakeraw raw);
          raw2 =
            (if wait_for_input then raw1\<lparr>c_cc := (c_cc raw1)(VMIN := 1, VTIME := 0)\<rparr>
             else raw1\<lparr>c_cc := (c_cc raw1)(VMIN := 0, VTIME := 1)\<rparr>)
      in tcsetattr TCSANOW raw2 w1)"

section \<open>Reading bytes\<close>

text \<open>
  What one \<^verbatim>\<open>read\<close> of at most \<open>count\<close> bytes returns and what it leaves, for a
  terminal out of canonical mode. With \<open>VMIN\<close> not zero the call waits through any
  silence until a byte is there; with \<open>VMIN\<close> zero it gives up after the poll window and
  returns 0. Either way it returns the bytes that have arrived, at most \<open>count\<close> of
  them, \<open>-1\<close> (as a \<^verbatim>\<open>size_t\<close>) when the call fails, and 0 at the end of the input.
\<close>

fun avail :: "tty_item list \<Rightarrow> byte list" where
  "avail (Byte b # xs) = b # avail xs"
| "avail _ = []"

definition deliver :: "bool \<Rightarrow> nat \<Rightarrow> tty_item list \<Rightarrow> (size_t \<times> byte list) \<times> tty_item list" where
  "deliver wait count inp =
     (let inp1 = (if wait then dropWhile (\<lambda>x. x = Quiet) inp else inp)
      in case inp1 of
           [] \<Rightarrow> ((0, []), [])
         | Quiet # rest \<Rightarrow> ((0, []), rest)
         | Fault # rest \<Rightarrow> ((- 1, []), rest)
         | Byte b # rest \<Rightarrow>
             (let bs = take count (avail inp1)
              in ((of_nat (length bs), bs), drop (length bs) inp1)))"

definition sys_read :: "nat \<Rightarrow> proc \<Rightarrow> (size_t \<times> byte list) \<times> proc" where
  "sys_read count w =
     (let wait = (c_cc (tty w) VMIN \<noteq> 0);
          ((ret, bs), rest) = deliver wait count (input w)
      in ((ret, bs), w\<lparr>input := rest, rd_log := rd_log w @ [(wait, count, ret)]\<rparr>))"

text \<open>
  \<^verbatim>\<open>read_raw\<close>, \<^verbatim>\<open>key_code.cpp\<close> lines 236 to 241. The result is the value returned
  and the bytes stored at \<^verbatim>\<open>ptr\<close>.
\<close>

definition read_raw :: "bool \<Rightarrow> nat \<Rightarrow> proc \<Rightarrow> (size_t \<times> byte list) \<times> proc" where
  "read_raw bwait_for_key ptr_size w =
     sys_read ptr_size (enable_raw_mode bwait_for_key immediate_no_echo w)"

text \<open>A \<^verbatim>\<open>char\<close> and a \<^verbatim>\<open>char\<close> array after \<^verbatim>\<open>read\<close> has stored \<open>bs\<close> at their address.\<close>

definition fetch :: "byte \<Rightarrow> byte list \<Rightarrow> byte" where
  "fetch c bs = (case bs of [] \<Rightarrow> c | b # _ \<Rightarrow> b)"

definition store :: "byte list \<Rightarrow> byte list \<Rightarrow> byte list" where
  "store buffer bs = bs @ drop (length bs) buffer"

text \<open>The bytes of a \<^verbatim>\<open>char\<close> array read as a C string: those before the first NUL.\<close>

definition c_str :: "byte list \<Rightarrow> byte list" where
  "c_str buffer = takeWhile (\<lambda>b. b \<noteq> 0) buffer"

definition print :: "out \<Rightarrow> proc \<Rightarrow> proc" where
  "print x w = w\<lparr>stdout := stdout w @ [x]\<rparr>"

section \<open>The key map and the event loop of \<^verbatim>\<open>main\<close>\<close>

text \<open>
  \<^verbatim>\<open>virtual_key_map\<close>, lines 255 to 266, in the order of the initialiser list; \<^verbatim>\<open>find\<close>
  on the \<^verbatim>\<open>unordered_map\<close> is \<open>map_of\<close>.
\<close>

definition virtual_key_map :: "(byte list \<times> vkey_t) list" where
  "virtual_key_map =
     [([0x1B], ESC),
      ([0x1B, 0x5B, 0x4F, 0x51], F2),
      ([0x1B, 0x5B, 0x4F, 0x52], F3),
      ([0x1B, 0x5B, 0x4F, 0x53], F4),
      ([0x1B, 0x5B, 0x31, 0x35, 0x7E], F5),
      ([0x1B, 0x5B, 0x31, 0x37, 0x7E], F6),
      ([0x1B, 0x5B, 0x31, 0x38, 0x7E], F7),
      ([0x1B, 0x5B, 0x31, 0x39, 0x7E], F8),
      ([0x1B, 0x5B, 0x32, 0x30, 0x7E], F9),
      ([0x1B, 0x5B, 0x48], HOME),
      ([0x1B, 0x5B, 0x46], END),
      ([0x1B, 0x5B, 0x41], UP_ARROW),
      ([0x1B, 0x5B, 0x42], DOWN_ARROW),
      ([0x1B, 0x5B, 0x43], RIGHT_ARROW),
      ([0x1B, 0x5B, 0x44], LEFT_ARROW),
      ([0x1B, 0x5B, 0x35, 0x7E], PAGE_UP),
      ([0x1B, 0x5B, 0x36, 0x7E], PAGE_DOWN),
      ([0x1B, 0x5B, 0x32, 0x7E], INSERT),
      ([0x1B, 0x5B, 0x33, 0x7E], DELETE),
      ([0x7F], BACKSPACE),
      ([0x0A], ENTER),
      ([0x09], TAB)]"

text \<open>
  The body of the \<^verbatim>\<open>while\<close> loop in three parts. First, lines 293 to 322: the key
  sequence is the byte \<open>c\<close>; after an escape byte one more byte is polled for, and when
  it comes, a third read of up to 10 bytes into a zeroed array of 11, which is appended
  as a C string.
\<close>

definition accumulate :: "byte \<Rightarrow> proc \<Rightarrow> byte list \<times> proc" where
  "accumulate c w =
     (let key_sequence = [c]
      in if c = 0x1B then
           (let immediate_next = 0;
                ((rdret, bs), w1) = read_raw False 1 w;
                immediate_next = fetch immediate_next bs;
                w2 = print (Rdret_line rdret) w1
            in if rdret = 1 then
                 (let key_sequence = key_sequence @ [immediate_next];
                      w3 = print (Rdret_arrow rdret) w2;
                      buffer = replicate 11 0;
                      ((ignored, bs), w4) = read_raw False 10 w3;
                      buffer = store buffer bs
                  in (key_sequence @ c_str buffer, w4))
               else (key_sequence, w2))
         else (key_sequence, w))"

text \<open>
  Lines 331 to 343: a sequence that is found gives its key and is cleared; any other
  gives \<open>none\<close> and stays.
\<close>

definition filter_key :: "byte list \<Rightarrow> proc \<Rightarrow> vkey_t \<times> byte list \<times> proc" where
  "filter_key key_sequence w =
     (case map_of virtual_key_map key_sequence of
        Some v \<Rightarrow> (v, [], print (Key_seq_line key_sequence) w)
      | None \<Rightarrow> (none, key_sequence, w))"

text \<open>
  Lines 351 to 356: the key is printed when there is one, otherwise every byte of the
  key sequence, each on a line of its own.
\<close>

definition dispatch :: "vkey_t \<Rightarrow> byte list \<Rightarrow> proc \<Rightarrow> proc" where
  "dispatch vk key_sequence w =
     (if vk \<noteq> none then print (Vk_input vk) w
      else fold (\<lambda>ch. print (Character_input ch)) key_sequence w)"

definition loop_body :: "byte \<Rightarrow> proc \<Rightarrow> proc" where
  "loop_body c w =
     (let (key_sequence, w1) = accumulate c w;
          (vk, key_sequence, w2) = filter_key key_sequence w1
      in dispatch vk key_sequence w2)"

text \<open>The loop condition, line 292: \<^verbatim>\<open>read_raw(&c) == 1 && c != 'q'\<close>.\<close>

definition loop_cond :: "byte \<Rightarrow> proc \<Rightarrow> bool \<times> byte \<times> proc" where
  "loop_cond c w =
     (let ((ret, bs), w1) = read_raw True 1 w;
          c1 = fetch c bs
      in (ret = 1 \<and> c1 \<noteq> 0x71, c1, w1))"

text \<open>
  One turn of the loop, the \<open>next_event\<close> of the specification: the condition, and the
  body when it holds. The first component tells whether the loop goes on.
\<close>

definition next_event :: "byte \<Rightarrow> proc \<Rightarrow> bool \<times> byte \<times> proc" where
  "next_event c w =
     (let (go, c1, w1) = loop_cond c w
      in if go then (True, c1, loop_body c1 w1) else (False, c1, w1))"

text \<open>
  The \<^verbatim>\<open>while\<close> loop of line 292. Every turn that goes on has taken a byte from the
  input, so the loop ends on every finite input.
\<close>

function event_loop :: "byte \<Rightarrow> proc \<Rightarrow> proc" where
  "event_loop c w =
     (let (go, c1, w1) = loop_cond c w
      in if go then event_loop c1 (loop_body c1 w1) else w1)"
  by pat_completeness auto
termination
proof (relation "measure (\<lambda>(c, w). length (input w))")
  show "wf (measure (\<lambda>(c, w). length (input w)))" by simp
next
  fix c :: byte and w :: proc and r go x c1 w1
  assume a: "r = loop_cond c w" "(go, x) = r" "(c1, w1) = x" "go"
  have en: "input (enable_raw_mode b m v) = input v" for b m and v :: proc
    by (simp add: enable_raw_mode_def tcsetattr_def atexit_def Let_def)
  have dl: "length (snd (deliver b n xs)) \<le> length xs" for b n xs
    using length_dropWhile_le [of "\<lambda>x. x = Quiet" xs]
    by (auto simp: deliver_def Let_def split: list.splits tty_item.splits)
  have sr: "input (snd (sys_read n v)) = snd (deliver (c_cc (tty v) VMIN \<noteq> 0) n (input v))"
    for n and v :: proc
    by (simp add: sys_read_def Let_def split: prod.splits)
  have rd: "length (input (snd (read_raw b n v))) \<le> length (input v)" for b n and v :: proc
    using dl [of _ n "input v"] by (simp add: read_raw_def sr en)
  have pr: "input (print y v) = input v" for y and v :: proc
    by (simp add: print_def)
  have fp: "input (fold (\<lambda>ch. print (Character_input ch)) ks v) = input v"
    for ks and v :: proc
    by (induction ks arbitrary: v) (simp_all add: pr)
  have acc: "length (input (snd (accumulate c1 v))) \<le> length (input v)" for v :: proc
    using rd [of False 1 v]
      rd [of False 10 "print (Rdret_arrow 1) (print (Rdret_line 1) (snd (read_raw False 1 v)))"]
    by (auto simp: accumulate_def Let_def pr split: prod.splits)
  have body: "length (input (loop_body c1 v)) \<le> length (input v)" for v :: proc
    using acc [of v]
    by (auto simp: loop_body_def filter_key_def dispatch_def Let_def pr fp
             split: prod.splits option.splits)
  have one: "length (snd (deliver b n xs)) < length xs"
    if "fst (fst (deliver b n xs)) = 1" for b n xs
  proof -
    let ?ys = "if b then dropWhile (\<lambda>x. x = Quiet) xs else xs"
    have le: "length ?ys \<le> length xs"
      by (simp add: length_dropWhile_le)
    from that obtain y rest where ys: "?ys = Byte y # rest"
      by (cases ?ys; cases "hd ?ys") (auto simp: deliver_def Let_def split: if_splits)
    with that have "(of_nat (length (take n (avail ?ys))) :: size_t) = 1"
      by (simp add: deliver_def Let_def del: length_take split: if_splits)
    then have "0 < length (take n (avail ?ys))"
      by (cases "length (take n (avail ?ys))") (simp_all del: length_take)
    then have "length (drop (length (take n (avail ?ys))) ?ys) < length ?ys"
      using ys by (simp del: length_take)
    moreover have "snd (deliver b n xs) = drop (length (take n (avail ?ys))) ?ys"
      using ys by (simp add: deliver_def Let_def)
    ultimately show ?thesis using le by simp
  qed
  have res: "fst (sys_read n v) = fst (deliver (c_cc (tty v) VMIN \<noteq> 0) n (input v))"
    for n and v :: proc
    by (simp add: sys_read_def Let_def split: prod.splits)
  from a have "loop_cond c w = (True, c1, w1)"
    by simp
  then have ret: "fst (fst (read_raw True 1 w)) = 1" and w1: "w1 = snd (read_raw True 1 w)"
    by (auto simp: loop_cond_def Let_def split: prod.splits)
  have first: "length (input w1) < length (input w)"
    using ret one [of _ 1 "input w"] by (simp add: w1 read_raw_def sr res en)
  show "((c1, loop_body c1 w1), (c, w)) \<in> measure (\<lambda>(c, w). length (input w))"
    using body [of w1] first by simp
qed

declare event_loop.simps [simp del]

text \<open>
  \<^verbatim>\<open>get_console_size\<close>, lines 199 to 216, and \<^verbatim>\<open>main\<close>, lines 243 to 364: the banner,
  the loop, \<^verbatim>\<open>disable_raw_mode\<close>, and the exit status. The ruler has a digit for every
  \<open>i\<close> from 0 below \<open>columns - 1\<close>, none when \<open>columns\<close> is 0.
\<close>

definition get_console_size :: "proc \<Rightarrow> 16 word \<times> 16 word" where
  "get_console_size w = winsize w"

definition EXIT_SUCCESS :: int where
  "EXIT_SUCCESS = 0"

definition main :: "proc \<Rightarrow> int \<times> proc" where
  "main w =
     (let (rows, columns) = get_console_size w;
          w1 = print (Text_line rows columns) w;
          w2 = print (Ruler_line (map (\<lambda>i. of_nat (i mod 10) + 0x30) [0..<unat columns - 1] @ [0x2A])) w1;
          c = 0;
          w3 = event_loop c w2;
          w4 = disable_raw_mode w3
      in (EXIT_SUCCESS, w4))"

text \<open>
  Leaving the process: the functions registered with \<^verbatim>\<open>atexit\<close> run, the one
  registered last first.
\<close>

definition run_hook :: "exit_hook \<Rightarrow> proc \<Rightarrow> proc" where
  "run_hook h w = (case h of Hook_disable_raw_mode \<Rightarrow> disable_raw_mode w)"

definition program :: "proc \<Rightarrow> int \<times> proc" where
  "program w = (let (status, w1) = main w in (status, fold run_hook (exit_hooks w1) w1))"

text \<open>
  The header \<^verbatim>\<open>raw_keyboard.h\<close> holds an earlier draft of the controller, lines 57 to
  90, which no file includes: it has no \<open>wait_for_input\<close> and no guard.
\<close>

definition enable_raw_mode_h :: "raw_mode_t \<Rightarrow> proc \<Rightarrow> proc" where
  "enable_raw_mode_h mode w =
     (let w1 = w\<lparr>orig_termios := tcgetattr w\<rparr>;
          w2 = atexit Hook_disable_raw_mode w1;
          raw = orig_termios w2;
          raw1 =
            (case mode of
               immediate_no_echo \<Rightarrow> raw\<lparr>c_lflag := c_lflag raw AND NOT (ECHO OR ICANON)\<rparr>
             | immediate_no_echo_ignore_signals \<Rightarrow>
                 raw\<lparr>c_iflag := c_iflag raw AND NOT (ICRNL OR IXON),
                     c_oflag := c_oflag raw AND NOT OPOST,
                     c_lflag := c_lflag raw AND NOT (ECHO OR ICANON OR IEXTEN OR ISIG)\<rparr>)
      in tcsetattr TCSAFLUSH raw1 w2)"

text \<open>The events a consumer sees among the printed lines.\<close>

datatype input_event = Key vkey_t | Character byte

fun events :: "out list \<Rightarrow> input_event list" where
  "events [] = []"
| "events (Vk_input k # xs) = Key k # events xs"
| "events (Character_input b # xs) = Character b # events xs"
| "events (x # xs) = events xs"

text \<open>The process as \<^verbatim>\<open>main\<close> finds it: the globals zeroed, nothing registered or printed.\<close>

definition zero_termios :: termios where
  "zero_termios = \<lparr>c_iflag = 0, c_oflag = 0, c_cflag = 0, c_lflag = 0, c_line = 0,
     c_cc = (\<lambda>i. 0), c_ispeed = 0, c_ospeed = 0\<rparr>"

definition initial_proc :: "termios \<Rightarrow> tty_item list \<Rightarrow> proc" where
  "initial_proc t inp = \<lparr>orig_termios = zero_termios, bset_exit = False, exit_hooks = [],
     tty = t, winsize = (24, 80), input = inp, stdout = [], rd_log = []\<rparr>"

text \<open>A terminal in its usual line mode: echo, canonical input, signals, 38400 baud.\<close>

definition cooked_termios :: termios where
  "cooked_termios = \<lparr>c_iflag = 0x500, c_oflag = 0x5, c_cflag = 0xBF, c_lflag = 0x8A3B,
     c_line = 0, c_cc = (\<lambda>i. 0)(VMIN := 1), c_ispeed = 0xF, c_ospeed = 0xF\<rparr>"

text \<open>
  What a turn hands on, and the key sequence it looks up in the map: the one
  accumulated from the byte and the state that the loop condition leaves.
\<close>

abbreviation proc_of :: "bool \<times> byte \<times> proc \<Rightarrow> proc" where
  "proc_of r \<equiv> snd (snd r)"

definition turn_key_sequence :: "byte \<Rightarrow> proc \<Rightarrow> byte list" where
  "turn_key_sequence c w =
     (let (go, c1, w1) = loop_cond c w in fst (accumulate c1 w1))"

text \<open>A fresh process on a terminal in line mode that is going to deliver \<open>inp\<close>.\<close>

definition fresh :: "tty_item list \<Rightarrow> proc" where
  "fresh inp = initial_proc cooked_termios inp"

section \<open>Facts about printing, entering raw mode and reading\<close>

lemma events_append: "events (xs @ ys) = events xs @ events ys"
  by (induction xs rule: events.induct) simp_all

lemma events_Character_input: "events (map Character_input ks) = map Character ks"
  by (induction ks) simp_all

lemma print_fields:
  "input (print x w) = input w" "rd_log (print x w) = rd_log w"
  "stdout (print x w) = stdout w @ [x]"
  by (simp_all add: print_def)

lemma fold_print_fields:
  "input (fold (\<lambda>ch. print (Character_input ch)) ks w) = input w"
  "rd_log (fold (\<lambda>ch. print (Character_input ch)) ks w) = rd_log w"
  "stdout (fold (\<lambda>ch. print (Character_input ch)) ks w) = stdout w @ map Character_input ks"
  by (induction ks arbitrary: w) (simp_all add: print_fields)

lemma enable_raw_mode_fields:
  "input (enable_raw_mode b m w) = input w"
  "rd_log (enable_raw_mode b m w) = rd_log w"
  "events (stdout (enable_raw_mode b m w)) = events (stdout w)"
  "c_cc (tty (enable_raw_mode b m w)) VMIN = (if b then 1 else 0)"
  by (simp_all add: enable_raw_mode_def tcsetattr_def atexit_def Let_def events_append
      VMIN_def VTIME_def)

text \<open>
  \<^verbatim>\<open>read_raw\<close> sets the terminal before it reads, so what it returns depends on its
  flag and on the input alone; and it reads out of canonical mode.
\<close>

lemma read_raw_fields:
  "fst (read_raw b n w) = fst (deliver b n (input w))"
  "input (snd (read_raw b n w)) = snd (deliver b n (input w))"
  "events (stdout (snd (read_raw b n w))) = events (stdout w)"
  "rd_log (snd (read_raw b n w)) = rd_log w @ [(b, n, fst (fst (deliver b n (input w))))]"
  by (simp_all add: read_raw_def sys_read_def enable_raw_mode_fields Let_def split: prod.splits)

lemma read_raw_not_canonical:
  "c_lflag (tty (snd (read_raw b n w))) AND ICANON = 0"
  by (simp add: read_raw_def sys_read_def enable_raw_mode_def tcsetattr_def tcgetattr_def
      atexit_def Let_def split_beta bit_eq_iff bit_simps)

lemma deliver_poll_bytes: "snd (fst (deliver False n xs)) = take n (avail xs)"
  by (cases xs rule: avail.cases) (simp_all add: deliver_def)

lemma deliver_poll_Byte: "deliver False 1 (Byte b # rest) = ((1, [b]), rest)"
  by (simp add: deliver_def)

lemma deliver_wait_Byte:
  "dropWhile (\<lambda>x. x = Quiet) xs = Byte b # rest \<Longrightarrow> deliver True 1 xs = ((1, [b]), rest)"
  by (simp add: deliver_def)

lemma takeWhile_stops: "\<not> P y \<Longrightarrow> takeWhile P (xs @ y # ys) = takeWhile P xs"
  by (induction xs) simp_all

text \<open>
  The array of 11 holds at most 10 bytes from the read, so a NUL always ends it: the C
  string is the bytes read, up to their first NUL.
\<close>

lemma c_str_store:
  assumes "length bs \<le> 10"
  shows "c_str (store (replicate 11 0) bs) = takeWhile (\<lambda>b. b \<noteq> 0) bs"
proof -
  from assms obtain k where k: "11 - length bs = Suc k"
    by (cases "11 - length bs") simp_all
  show ?thesis
    by (simp add: c_str_def store_def k takeWhile_stops)
qed

section \<open>Facts about one turn of the loop\<close>

lemma accumulate_key_sequence:
  "fst (accumulate c w) =
     (if c = 0x1B \<and> fst (fst (deliver False 1 (input w))) = 1
      then [0x1B, fetch 0 (take 1 (avail (input w)))]
           @ takeWhile (\<lambda>b. b \<noteq> 0) (take 10 (avail (snd (deliver False 1 (input w)))))
      else [c])"
proof -
  have "c_str (store (replicate 11 0) (snd (fst (deliver False 10 xs))))
        = takeWhile (\<lambda>b. b \<noteq> 0) (take 10 (avail xs))" for xs
    using c_str_store [of "take 10 (avail xs)"] by (simp add: deliver_poll_bytes)
  then show ?thesis
    by (simp add: accumulate_def Let_def split_beta read_raw_fields print_fields
        deliver_poll_bytes)
qed

lemma accumulate_input:
  "input (snd (accumulate c w)) =
     (if c = 0x1B then
        (if fst (fst (deliver False 1 (input w))) = 1
         then snd (deliver False 10 (snd (deliver False 1 (input w))))
         else snd (deliver False 1 (input w)))
      else input w)"
  by (simp add: accumulate_def Let_def split_beta read_raw_fields print_fields)

lemma accumulate_rd_log:
  "rd_log (snd (accumulate c w)) =
     (if c = 0x1B then
        (if fst (fst (deliver False 1 (input w))) = 1
         then rd_log w @ [(False, 1, 1),
                (False, 10, fst (fst (deliver False 10 (snd (deliver False 1 (input w))))))]
         else rd_log w @ [(False, 1, fst (fst (deliver False 1 (input w))))])
      else rd_log w)"
  by (simp add: accumulate_def Let_def split_beta read_raw_fields print_fields)

lemma accumulate_events: "events (stdout (snd (accumulate c w))) = events (stdout w)"
  by (simp add: accumulate_def Let_def split_beta read_raw_fields print_fields events_append)

lemma virtual_key_map_values:
  "snd ` set virtual_key_map =
     {ESC, F2, F3, F4, F5, F6, F7, F8, F9, HOME, END, UP_ARROW, DOWN_ARROW, RIGHT_ARROW,
      LEFT_ARROW, PAGE_UP, PAGE_DOWN, INSERT, DELETE, BACKSPACE, ENTER, TAB}"
  by (auto simp: virtual_key_map_def)

lemma map_of_virtual_key_map_in_values:
  "map_of virtual_key_map ks = Some v \<Longrightarrow> v \<in> snd ` set virtual_key_map"
  by (metis map_of_SomeD image_eqI snd_conv)

lemma map_of_virtual_key_map_not_none:
  "map_of virtual_key_map ks = Some v \<Longrightarrow> v \<noteq> none"
  using map_of_virtual_key_map_in_values [of ks v] by (auto simp: virtual_key_map_values)

lemma loop_body_events:
  "events (stdout (loop_body c w)) = events (stdout w) @
     (case map_of virtual_key_map (fst (accumulate c w)) of
        Some v \<Rightarrow> [Key v]
      | None \<Rightarrow> map Character (fst (accumulate c w)))"
  by (auto simp: loop_body_def filter_key_def dispatch_def split_beta Let_def print_fields
      fold_print_fields events_append accumulate_events events_Character_input
      map_of_virtual_key_map_not_none split: option.splits)

lemma loop_body_input: "input (loop_body c w) = input (snd (accumulate c w))"
  by (auto simp: loop_body_def filter_key_def dispatch_def split_beta Let_def print_fields
      fold_print_fields split: option.splits)

lemma loop_body_rd_log: "rd_log (loop_body c w) = rd_log (snd (accumulate c w))"
  by (auto simp: loop_body_def filter_key_def dispatch_def split_beta Let_def print_fields
      fold_print_fields split: option.splits)

lemma loop_cond_fields:
  "fst (loop_cond c w) =
     (fst (fst (deliver True 1 (input w))) = 1
      \<and> fetch c (snd (fst (deliver True 1 (input w)))) \<noteq> 0x71)"
  "fst (snd (loop_cond c w)) = fetch c (snd (fst (deliver True 1 (input w))))"
  "input (snd (snd (loop_cond c w))) = snd (deliver True 1 (input w))"
  "events (stdout (snd (snd (loop_cond c w)))) = events (stdout w)"
  "rd_log (snd (snd (loop_cond c w))) = rd_log w @ [(True, 1, fst (fst (deliver True 1 (input w))))]"
  by (simp_all add: loop_cond_def Let_def split_beta read_raw_fields)

lemma next_event_unfold:
  "next_event c w =
     (if fst (loop_cond c w)
      then (True, fst (snd (loop_cond c w)),
            loop_body (fst (snd (loop_cond c w))) (snd (snd (loop_cond c w))))
      else (False, fst (snd (loop_cond c w)), snd (snd (loop_cond c w))))"
  by (simp add: next_event_def split_beta)

lemma next_event_events:
  "events (stdout (proc_of (next_event c w))) = events (stdout w) @
     (if fst (next_event c w) then
        (case map_of virtual_key_map (turn_key_sequence c w) of
           Some v \<Rightarrow> [Key v]
         | None \<Rightarrow> map Character (turn_key_sequence c w))
      else [])"
  unfolding turn_key_sequence_def split_beta Let_def
  by (simp add: next_event_unfold loop_body_events loop_cond_fields(4))

text \<open>
  A turn on a stream whose first byte, after any silence, is \<open>b\<close>: whether the loop
  goes on, and the key sequence that is looked up.
\<close>

lemma next_event_goes_on:
  assumes "dropWhile (\<lambda>x. x = Quiet) (input w) = Byte b # rest"
  shows "fst (next_event c w) = (b \<noteq> 0x71)"
  using deliver_wait_Byte [OF assms]
  by (simp add: next_event_unfold loop_cond_fields fetch_def)

lemma turn_key_sequence_stream:
  assumes "dropWhile (\<lambda>x. x = Quiet) (input w) = Byte b # rest"
  shows "turn_key_sequence c w =
     (if b = 0x1B \<and> fst (fst (deliver False 1 rest)) = 1
      then [0x1B, fetch 0 (take 1 (avail rest))]
           @ takeWhile (\<lambda>b. b \<noteq> 0) (take 10 (avail (snd (deliver False 1 rest))))
      else [b])"
  using deliver_wait_Byte [OF assms]
  by (simp add: turn_key_sequence_def split_beta loop_cond_fields accumulate_key_sequence
      fetch_def)

lemma next_event_input:
  assumes "dropWhile (\<lambda>x. x = Quiet) (input w) = Byte b # rest"
  shows "input (proc_of (next_event c w)) =
     (if b = 0x71 then rest
      else if b = 0x1B then
        (if fst (fst (deliver False 1 rest)) = 1
         then snd (deliver False 10 (snd (deliver False 1 rest)))
         else snd (deliver False 1 rest))
      else rest)"
  using deliver_wait_Byte [OF assms]
  by (simp add: next_event_unfold loop_cond_fields loop_body_input accumulate_input fetch_def)

lemma next_event_rd_log:
  assumes "dropWhile (\<lambda>x. x = Quiet) (input w) = Byte b # rest"
  shows "rd_log (proc_of (next_event c w)) = rd_log w @ (True, 1, 1) #
     (if b = 0x71 then []
      else if b = 0x1B then
        (if fst (fst (deliver False 1 rest)) = 1
         then [(False, 1, 1), (False, 10, fst (fst (deliver False 10 (snd (deliver False 1 rest)))))]
         else [(False, 1, fst (fst (deliver False 1 rest)))])
      else [])"
  using deliver_wait_Byte [OF assms]
  by (simp add: next_event_unfold loop_cond_fields loop_body_rd_log accumulate_rd_log fetch_def)

lemma fresh_fields: "input (fresh inp) = inp" "stdout (fresh inp) = []" "rd_log (fresh inp) = []"
  by (simp_all add: fresh_def initial_proc_def)

section \<open>Facts about the loop and the program\<close>

lemma next_event_log_shape:
  "map (\<lambda>(b, n, r). (b, n)) (drop (length (rd_log w)) (rd_log (proc_of (next_event c w))))
     \<in> {[(True, 1)], [(True, 1), (False, 1)], [(True, 1), (False, 1), (False, 10)]}"
  by (simp add: next_event_unfold loop_cond_fields loop_body_rd_log accumulate_rd_log)

lemma event_loop_unfold:
  "event_loop c w =
     (if fst (next_event c w)
      then event_loop (fst (snd (next_event c w))) (proc_of (next_event c w))
      else proc_of (next_event c w))"
  by (subst event_loop.simps) (simp add: next_event_unfold split_beta)

lemma next_event_shorter:
  "fst (next_event c w) \<Longrightarrow> length (input (proc_of (next_event c w))) < length (input w)"
proof -
  assume go: "fst (next_event c w)"
  have dl: "length (snd (deliver b n xs)) \<le> length xs" for b n xs
    using length_dropWhile_le [of "\<lambda>x. x = Quiet" xs]
    by (auto simp: deliver_def Let_def split: list.splits tty_item.splits)
  from go have one: "fst (fst (deliver True 1 (input w))) = 1"
    by (simp add: next_event_unfold loop_cond_fields split: if_splits)
  then obtain b rest where d: "dropWhile (\<lambda>x. x = Quiet) (input w) = Byte b # rest"
    by (cases "dropWhile (\<lambda>x. x = Quiet) (input w)" rule: avail.cases)
       (auto simp: deliver_def)
  have "length (Byte b # rest) \<le> length (input w)"
    using length_dropWhile_le [of "\<lambda>x. x = Quiet" "input w"] by (simp only: d)
  then have r: "length rest < length (input w)" by simp
  show ?thesis
    using r dl [of False 1 rest] dl [of False 10 "snd (deliver False 1 rest)"]
    by (simp add: next_event_input [OF d])
qed

text \<open>Every key the loop reports is a value of the map.\<close>

lemma next_event_keys:
  "Key k \<in> set (events (stdout (proc_of (next_event c w))))
   \<Longrightarrow> Key k \<in> set (events (stdout w)) \<or> k \<in> snd ` set virtual_key_map"
  by (auto simp: next_event_events map_of_virtual_key_map_in_values
      split: if_splits option.splits)

lemma event_loop_keys:
  "Key k \<in> set (events (stdout (event_loop c w)))
   \<Longrightarrow> Key k \<in> set (events (stdout w)) \<or> k \<in> snd ` set virtual_key_map"
proof (induction "length (input w)" arbitrary: c w rule: less_induct)
  case less
  show ?case
  proof (cases "fst (next_event c w)")
    case True
    from less.prems have
      "Key k \<in> set (events (stdout (event_loop (fst (snd (next_event c w))) (proc_of (next_event c w)))))"
      by (subst (asm) event_loop_unfold) (simp add: True)
    with less.hyps [OF next_event_shorter [OF True]]
    have "Key k \<in> set (events (stdout (proc_of (next_event c w)))) \<or> k \<in> snd ` set virtual_key_map"
      by blast
    then show ?thesis
      using next_event_keys by blast
  next
    case False
    from less.prems have "Key k \<in> set (events (stdout (proc_of (next_event c w))))"
      by (subst (asm) event_loop_unfold) (simp add: False)
    then show ?thesis
      using next_event_keys by blast
  qed
qed

lemma main_events:
  "events (stdout (snd (main w))) =
     events (stdout (event_loop 0
       (print (Ruler_line (map (\<lambda>i. of_nat (i mod 10) + 0x30) [0..<unat (snd (winsize w)) - 1] @ [0x2A]))
         (print (Text_line (fst (winsize w)) (snd (winsize w))) w))))"
  by (simp add: main_def get_console_size_def split_beta Let_def disable_raw_mode_def tcsetattr_def)

lemma main_keys:
  "Key k \<in> set (events (stdout (snd (main w))))
   \<Longrightarrow> Key k \<in> set (events (stdout w)) \<or> k \<in> snd ` set virtual_key_map"
  unfolding main_events
  by (drule event_loop_keys) (simp add: print_fields events_append)

lemma loop_body_plain:
  assumes "b \<noteq> 0x1B"
  shows "events (stdout (loop_body b w)) = events (stdout w) @
           [case map_of virtual_key_map [b] of Some v \<Rightarrow> Key v | None \<Rightarrow> Character b]"
    and "input (loop_body b w) = input w" and "rd_log (loop_body b w) = rd_log w"
  using assms
  by (simp_all add: loop_body_events loop_body_input loop_body_rd_log accumulate_key_sequence
      accumulate_input accumulate_rd_log split: option.splits)

lemma event_loop_plain:
  assumes "0x71 \<notin> set bs" and "0x1B \<notin> set bs"
    and "input w = map Byte bs @ Byte 0x71 # rest"
  shows "events (stdout (event_loop c w)) = events (stdout w) @
           map (\<lambda>b. case map_of virtual_key_map [b] of Some v \<Rightarrow> Key v | None \<Rightarrow> Character b) bs
       \<and> input (event_loop c w) = rest"
  using assms
proof (induction bs arbitrary: c w)
  case Nil
  then have d: "dropWhile (\<lambda>x. x = Quiet) (input w) = Byte 0x71 # rest"
    by simp
  have stop: "\<not> fst (next_event c w)"
    by (simp add: next_event_goes_on [OF d])
  show ?case
    by (subst (1 2) event_loop_unfold) (simp add: stop next_event_events next_event_input [OF d])
next
  case (Cons b bs)
  then have d: "dropWhile (\<lambda>x. x = Quiet) (input w) = Byte b # (map Byte bs @ Byte 0x71 # rest)"
    by simp
  from Cons.prems have b: "b \<noteq> 0x71" "b \<noteq> 0x1B"
    by auto
  have go: "fst (next_event c w)"
    by (simp add: next_event_goes_on [OF d] b)
  have ks: "turn_key_sequence c w = [b]"
    by (simp add: turn_key_sequence_stream [OF d] b)
  have inp: "input (proc_of (next_event c w)) = map Byte bs @ Byte 0x71 # rest"
    by (simp add: next_event_input [OF d] b)
  have ev: "events (stdout (proc_of (next_event c w))) = events (stdout w) @
      [case map_of virtual_key_map [b] of Some v \<Rightarrow> Key v | None \<Rightarrow> Character b]"
    by (simp add: next_event_events go ks split: option.splits)
  from Cons.prems have "0x71 \<notin> set bs" "0x1B \<notin> set bs"
    by auto
  from Cons.IH [OF this inp, of "fst (snd (next_event c w))"]
  show ?case
    by (subst (1 2) event_loop_unfold) (simp add: go ev)
qed

lemma main_fields:
  "fst (main w) = 0"
  "exit_hooks (snd (main w)) = exit_hooks (event_loop 0
       (print (Ruler_line (map (\<lambda>i. of_nat (i mod 10) + 0x30) [0..<unat (snd (winsize w)) - 1] @ [0x2A]))
         (print (Text_line (fst (winsize w)) (snd (winsize w))) w)))"
  by (simp_all add: main_def get_console_size_def split_beta Let_def EXIT_SUCCESS_def
      disable_raw_mode_def tcsetattr_def)

text \<open>
  A \<^verbatim>\<open>q\<close> right behind an escape byte is the second byte of a key sequence that the
  map does not have; and the byte the loop condition hands to the body is never \<^verbatim>\<open>q\<close>.
\<close>

lemma no_key_begins_escape_q: "map_of virtual_key_map (0x1B # 0x71 # ks) = None"
  by (simp add: virtual_key_map_def)

lemma escape_q_turn:
  assumes "dropWhile (\<lambda>x. x = Quiet) (input w) = Byte 0x1B # Byte 0x71 # rest"
  shows "fst (next_event c w)"
    and "events (stdout (proc_of (next_event c w))) = events (stdout w) @
           Character 0x1B # Character 0x71
             # map Character (takeWhile (\<lambda>x. x \<noteq> 0) (take 10 (avail rest)))"
    and "input (proc_of (next_event c w)) = snd (deliver False 10 rest)"
proof -
  show go: "fst (next_event c w)"
    by (simp add: next_event_goes_on [OF assms])
  have ks: "turn_key_sequence c w
      = 0x1B # 0x71 # takeWhile (\<lambda>x. x \<noteq> 0) (take 10 (avail rest))"
    using deliver_poll_Byte [of "0x71" rest]
    by (simp add: turn_key_sequence_stream [OF assms] fetch_def)
  show "events (stdout (proc_of (next_event c w))) = events (stdout w) @
           Character 0x1B # Character 0x71
             # map Character (takeWhile (\<lambda>x. x \<noteq> 0) (take 10 (avail rest)))"
    by (simp add: next_event_events go ks no_key_begins_escape_q)
  show "input (proc_of (next_event c w)) = snd (deliver False 10 rest)"
    using deliver_poll_Byte [of "0x71" rest] by (simp add: next_event_input [OF assms])
qed

lemma loop_cond_not_q: "fst (loop_cond c w) \<Longrightarrow> fst (snd (loop_cond c w)) \<noteq> 0x71"
  by (simp add: loop_cond_fields)

lemma main_events_loop:
  assumes "\<And>v. input v = input w \<Longrightarrow> events (stdout (event_loop 0 v)) = events (stdout v) @ es"
  shows "events (stdout (snd (main w))) = events (stdout w) @ es"
  unfolding main_events
  by (subst assms) (simp_all add: print_fields events_append)

lemma event_loop_escape_q:
  assumes "0x71 \<notin> set bs" and "0x1B \<notin> set bs"
    and "input w = Byte 0x1B # Byte 0x71 # Quiet # map Byte bs @ Byte 0x71 # rest"
  shows "events (stdout (event_loop c w)) = events (stdout w) @
           Character 0x1B # Character 0x71 #
           map (\<lambda>b. case map_of virtual_key_map [b] of Some v \<Rightarrow> Key v | None \<Rightarrow> Character b) bs"
proof -
  from assms(3) have d: "dropWhile (\<lambda>x. x = Quiet) (input w)
      = Byte 0x1B # Byte 0x71 # (Quiet # map Byte bs @ Byte 0x71 # rest)"
    by simp
  have inp: "input (proc_of (next_event c w)) = map Byte bs @ Byte 0x71 # rest"
    by (simp add: escape_q_turn(3) [OF d] deliver_def)
  have ev: "events (stdout (proc_of (next_event c w)))
      = events (stdout w) @ [Character 0x1B, Character 0x71]"
    by (simp add: escape_q_turn(2) [OF d])
  from event_loop_plain [OF assms(1) assms(2) inp, of "fst (snd (next_event c w))"]
  show ?thesis
    by (subst event_loop_unfold) (simp add: escape_q_turn(1) [OF d] ev)
qed

section \<open>The raw-mode controller: entering twice, entering and leaving\<close>

text \<open>
  Claim C8. In a process that has not entered raw mode yet, two calls of
  \<^verbatim>\<open>enable_raw_mode\<close> in a row, with any arguments, register \<^verbatim>\<open>disable_raw_mode\<close>
  with \<^verbatim>\<open>atexit\<close> once, and \<open>orig_termios\<close> holds the terminal's settings from before
  the first call, after the first call and still after the second.
\<close>

theorem enable_raw_mode_twice_registers_once:
  assumes "\<not> bset_exit w"
  shows "exit_hooks (enable_raw_mode b2 m2 (enable_raw_mode b1 m1 w))
           = Hook_disable_raw_mode # exit_hooks w
       \<and> count_list (exit_hooks (enable_raw_mode b2 m2 (enable_raw_mode b1 m1 w)))
             Hook_disable_raw_mode
           = Suc (count_list (exit_hooks w) Hook_disable_raw_mode)
       \<and> orig_termios (enable_raw_mode b1 m1 w) = tty w
       \<and> orig_termios (enable_raw_mode b2 m2 (enable_raw_mode b1 m1 w)) = tty w"
  using assms
  by (simp add: enable_raw_mode_def tcsetattr_def tcgetattr_def atexit_def Let_def)

theorem enable_raw_mode_twice_registers_once_witness:
  "\<not> bset_exit (initial_proc cooked_termios [])
   \<and> exit_hooks (enable_raw_mode False immediate_no_echo
        (enable_raw_mode True immediate_no_echo (initial_proc cooked_termios [])))
      = [Hook_disable_raw_mode]
   \<and> orig_termios (enable_raw_mode False immediate_no_echo
        (enable_raw_mode True immediate_no_echo (initial_proc cooked_termios [])))
      = cooked_termios"
  using enable_raw_mode_twice_registers_once
    [of "initial_proc cooked_termios []" False immediate_no_echo True immediate_no_echo]
  by (simp add: initial_proc_def)

text \<open>
  The draft of the header has no guard: two calls register the function twice and the
  second call saves the settings the first one left.
\<close>

lemma enable_raw_mode_h_twice:
  "exit_hooks (enable_raw_mode_h m2 (enable_raw_mode_h m1 w))
     = Hook_disable_raw_mode # Hook_disable_raw_mode # exit_hooks w
   \<and> orig_termios (enable_raw_mode_h m2 (enable_raw_mode_h m1 w)) = tty (enable_raw_mode_h m1 w)"
  by (simp add: enable_raw_mode_h_def tcsetattr_def tcgetattr_def atexit_def Let_def)

text \<open>
  Claim C9. In a process that has not entered raw mode yet, whatever the terminal's
  settings are, \<^verbatim>\<open>enable_raw_mode\<close> followed by \<^verbatim>\<open>disable_raw_mode\<close> leaves the terminal
  with the settings it had before: every field of the \<^verbatim>\<open>termios\<close> is the same.
\<close>

theorem enable_then_disable_restores:
  assumes "\<not> bset_exit w"
  shows "tty (disable_raw_mode (enable_raw_mode b m w)) = tty w"
  using assms
  by (simp add: disable_raw_mode_def enable_raw_mode_def tcsetattr_def tcgetattr_def
      atexit_def Let_def)

theorem enable_then_disable_restores_witness:
  "\<not> bset_exit (initial_proc cooked_termios [])
   \<and> tty (enable_raw_mode False immediate_no_echo (initial_proc cooked_termios []))
      \<noteq> cooked_termios
   \<and> tty (disable_raw_mode
        (enable_raw_mode False immediate_no_echo (initial_proc cooked_termios [])))
      = cooked_termios"
proof -
  have "c_lflag (tty (enable_raw_mode False immediate_no_echo (initial_proc cooked_termios [])))
        \<noteq> c_lflag cooked_termios"
    by (simp add: enable_raw_mode_def tcsetattr_def tcgetattr_def atexit_def Let_def
        initial_proc_def cooked_termios_def ECHO_def ICANON_def)
  then have "tty (enable_raw_mode False immediate_no_echo (initial_proc cooked_termios []))
        \<noteq> cooked_termios"
    by auto
  then show ?thesis
    using enable_then_disable_restores [of "initial_proc cooked_termios []" False immediate_no_echo]
    by (simp add: initial_proc_def)
qed

section \<open>The decoder: what a turn reports\<close>

text \<open>
  Claim C1, as the specification has it, fails: for the stream \<^verbatim>\<open>\x1b[Z\<close> the turn
  looks up the three bytes, finds no key, and prints a character line for each of the
  three, not for the escape byte alone.
\<close>

theorem unmatched_sequence_first_byte_only_counterexample:
  "turn_key_sequence 0 (fresh [Byte 0x1B, Byte 0x5B, Byte 0x5A]) = [0x1B, 0x5B, 0x5A]
   \<and> map_of virtual_key_map [0x1B, 0x5B, 0x5A] = None
   \<and> events (stdout (proc_of (next_event 0 (fresh [Byte 0x1B, Byte 0x5B, Byte 0x5A]))))
       = [Character 0x1B, Character 0x5B, Character 0x5A]
   \<and> events (stdout (proc_of (next_event 0 (fresh [Byte 0x1B, Byte 0x5B, Byte 0x5A]))))
       \<noteq> [Character 0x1B]"
proof -
  let ?w = "fresh [Byte 0x1B, Byte 0x5B, Byte 0x5A]"
  have d: "dropWhile (\<lambda>x. x = Quiet) (input ?w) = Byte 0x1B # [Byte 0x5B, Byte 0x5A]"
    by (simp add: fresh_fields)
  have ks: "turn_key_sequence 0 ?w = [0x1B, 0x5B, 0x5A]"
    by (simp add: turn_key_sequence_stream [OF d] deliver_def fetch_def)
  have none: "map_of virtual_key_map [0x1B, 0x5B, 0x5A] = None"
    by (simp add: virtual_key_map_def)
  have go: "fst (next_event 0 ?w)"
    by (simp add: next_event_goes_on [OF d])
  have ev: "events (stdout (proc_of (next_event 0 ?w)))
       = [Character 0x1B, Character 0x5B, Character 0x5A]"
    by (simp add: next_event_events go ks none fresh_fields)
  show ?thesis
    using ks none ev by simp
qed

text \<open>
  Claim C1, amended. When the key sequence of a turn has no entry in the map, the turn
  reports one character for every byte of the key sequence, in order, and nothing else.
\<close>

theorem unmatched_sequence_prints_every_byte:
  assumes "fst (next_event c w)"
    and "map_of virtual_key_map (turn_key_sequence c w) = None"
  shows "events (stdout (proc_of (next_event c w)))
           = events (stdout w) @ map Character (turn_key_sequence c w)"
  using assms by (simp add: next_event_events)

theorem unmatched_sequence_prints_every_byte_witness:
  "fst (next_event 0 (fresh [Byte 0x1B, Byte 0x5B, Byte 0x5A]))
   \<and> map_of virtual_key_map (turn_key_sequence 0 (fresh [Byte 0x1B, Byte 0x5B, Byte 0x5A])) = None
   \<and> events (stdout (proc_of (next_event 0 (fresh [Byte 0x1B, Byte 0x5B, Byte 0x5A]))))
       = map Character [0x1B, 0x5B, 0x5A]"
proof -
  let ?w = "fresh [Byte 0x1B, Byte 0x5B, Byte 0x5A]"
  have d: "dropWhile (\<lambda>x. x = Quiet) (input ?w) = Byte 0x1B # [Byte 0x5B, Byte 0x5A]"
    by (simp add: fresh_fields)
  have ks: "turn_key_sequence 0 ?w = [0x1B, 0x5B, 0x5A]"
    by (simp add: turn_key_sequence_stream [OF d] deliver_def fetch_def)
  have none: "map_of virtual_key_map (turn_key_sequence 0 ?w) = None"
    by (simp add: ks virtual_key_map_def)
  have go: "fst (next_event 0 ?w)"
    by (simp add: next_event_goes_on [OF d])
  show ?thesis
    using unmatched_sequence_prints_every_byte [OF go none] go none
    by (simp add: ks fresh_fields)
qed

text \<open>
  Claim C2. When the first byte of the stream is the escape byte and the poll for one
  more byte returns zero, the turn reports the escape key and nothing else; it has read
  twice, once waiting and once polling, both for one byte; and the bytes that follow
  the escape byte are all still to be read.
\<close>

theorem escape_alone_is_the_escape_key:
  assumes "dropWhile (\<lambda>x. x = Quiet) (input w) = Byte 0x1B # rest"
    and "fst (fst (deliver False 1 rest)) = 0"
  shows "fst (next_event c w)
       \<and> events (stdout (proc_of (next_event c w))) = events (stdout w) @ [Key ESC]
       \<and> rd_log (proc_of (next_event c w)) = rd_log w @ [(True, 1, 1), (False, 1, 0)]
       \<and> input (proc_of (next_event c w)) = snd (deliver False 1 rest)
       \<and> filter is_Byte (input (proc_of (next_event c w))) = filter is_Byte rest"
proof -
  have go: "fst (next_event c w)"
    by (simp add: next_event_goes_on [OF assms(1)])
  have ks: "turn_key_sequence c w = [0x1B]"
    using assms(2) by (simp add: turn_key_sequence_stream [OF assms(1)])
  have ev: "events (stdout (proc_of (next_event c w))) = events (stdout w) @ [Key ESC]"
    by (simp add: next_event_events go ks virtual_key_map_def)
  have lg: "rd_log (proc_of (next_event c w)) = rd_log w @ [(True, 1, 1), (False, 1, 0)]"
    using assms(2) by (simp add: next_event_rd_log [OF assms(1)])
  have inp: "input (proc_of (next_event c w)) = snd (deliver False 1 rest)"
    using assms(2) by (simp add: next_event_input [OF assms(1)])
  have "filter is_Byte (snd (deliver False 1 rest)) = filter is_Byte rest"
    using assms(2)
    by (cases rest rule: avail.cases) (simp_all add: deliver_def is_Byte_def)
  with go ev lg inp show ?thesis by simp
qed

theorem escape_alone_is_the_escape_key_witness:
  "dropWhile (\<lambda>x. x = Quiet) (input (fresh [Byte 0x1B, Quiet, Byte 0x5B, Byte 0x41]))
     = Byte 0x1B # [Quiet, Byte 0x5B, Byte 0x41]
   \<and> fst (fst (deliver False 1 [Quiet, Byte 0x5B, Byte 0x41])) = 0
   \<and> fst (next_event 0 (fresh [Byte 0x1B, Quiet, Byte 0x5B, Byte 0x41]))
   \<and> events (stdout (proc_of (next_event 0 (fresh [Byte 0x1B, Quiet, Byte 0x5B, Byte 0x41]))))
       = [Key ESC]
   \<and> rd_log (proc_of (next_event 0 (fresh [Byte 0x1B, Quiet, Byte 0x5B, Byte 0x41])))
       = [(True, 1, 1), (False, 1, 0)]
   \<and> input (proc_of (next_event 0 (fresh [Byte 0x1B, Quiet, Byte 0x5B, Byte 0x41])))
       = [Byte 0x5B, Byte 0x41]"
proof -
  let ?w = "fresh [Byte 0x1B, Quiet, Byte 0x5B, Byte 0x41]"
  have d: "dropWhile (\<lambda>x. x = Quiet) (input ?w) = Byte 0x1B # [Quiet, Byte 0x5B, Byte 0x41]"
    by (simp add: fresh_fields)
  have z: "fst (fst (deliver False 1 [Quiet, Byte 0x5B, Byte 0x41])) = 0"
    by (simp add: deliver_def)
  show ?thesis
    using escape_alone_is_the_escape_key [OF d z, of 0] d z
    by (simp add: fresh_fields deliver_def)
qed

text \<open>
  Claim C3, as the specification has it, fails: an escape byte with eleven bytes right
  behind it gives a key sequence of twelve bytes, the escape byte, the byte polled
  for, and ten from the last read.
\<close>

theorem key_sequence_at_most_11_counterexample:
  "length (turn_key_sequence 0 (fresh (map Byte
      [0x1B, 0x5B, 0x31, 0x32, 0x33, 0x34, 0x35, 0x36, 0x37, 0x38, 0x39, 0x7E]))) = 12
   \<and> \<not> length (turn_key_sequence 0 (fresh (map Byte
      [0x1B, 0x5B, 0x31, 0x32, 0x33, 0x34, 0x35, 0x36, 0x37, 0x38, 0x39, 0x7E]))) \<le> 11"
proof -
  let ?w = "fresh (map Byte [0x1B, 0x5B, 0x31, 0x32, 0x33, 0x34, 0x35, 0x36, 0x37, 0x38, 0x39, 0x7E])"
  have d: "dropWhile (\<lambda>x. x = Quiet) (input ?w)
      = Byte 0x1B # map Byte [0x5B, 0x31, 0x32, 0x33, 0x34, 0x35, 0x36, 0x37, 0x38, 0x39, 0x7E]"
    by (simp add: fresh_fields)
  have "turn_key_sequence 0 ?w
      = [0x1B, 0x5B, 0x31, 0x32, 0x33, 0x34, 0x35, 0x36, 0x37, 0x38, 0x39, 0x7E]"
    using turn_key_sequence_stream [OF d, of 0] by (simp add: deliver_def fetch_def)
  then show ?thesis by simp
qed

text \<open>
  Claim C3, amended. The key sequence of a turn never has more than 12 bytes: the
  first byte, one from the poll, and at most 10 from the last read.
\<close>

theorem key_sequence_at_most_12:
  "length (fst (accumulate c w)) \<le> 12 \<and> length (turn_key_sequence c w) \<le> 12"
proof -
  have "length (takeWhile (\<lambda>b. b \<noteq> 0) (take 10 xs)) \<le> 10" for xs :: "byte list"
    using length_takeWhile_le [of "\<lambda>b. b \<noteq> 0" "take 10 xs"] by simp
  then have "length (fst (accumulate c v)) \<le> 12" for c and v :: proc
    by (simp add: accumulate_key_sequence)
  then show ?thesis
    by (simp add: turn_key_sequence_def split_beta)
qed

text \<open>
  Claim C4. When the key sequence of a turn is a key of the map, the turn reports the
  virtual key the map gives for it and nothing else. The same lookup serves the
  sequences of one byte and those that begin with the escape byte.
\<close>

theorem mapped_sequence_gives_its_key:
  assumes "fst (next_event c w)"
    and "map_of virtual_key_map (turn_key_sequence c w) = Some v"
  shows "events (stdout (proc_of (next_event c w))) = events (stdout w) @ [Key v]"
  using assms by (simp add: next_event_events)

theorem mapped_sequence_gives_its_key_witness:
  "fst (next_event 0 (fresh [Byte 0x1B, Byte 0x5B, Byte 0x41, Quiet]))
   \<and> map_of virtual_key_map (turn_key_sequence 0 (fresh [Byte 0x1B, Byte 0x5B, Byte 0x41, Quiet]))
       = Some UP_ARROW
   \<and> events (stdout (proc_of (next_event 0 (fresh [Byte 0x1B, Byte 0x5B, Byte 0x41, Quiet]))))
       = [Key UP_ARROW]
   \<and> input (proc_of (next_event 0 (fresh [Byte 0x1B, Byte 0x5B, Byte 0x41, Quiet]))) = [Quiet]
   \<and> events (stdout (proc_of (next_event 0 (fresh [Byte 0x0A])))) = [Key ENTER]
   \<and> events (stdout (proc_of (next_event 0 (fresh [Byte 0x09])))) = [Key TAB]
   \<and> events (stdout (proc_of (next_event 0 (fresh [Byte 0x7F])))) = [Key BACKSPACE]"
proof -
  let ?up = "fresh [Byte 0x1B, Byte 0x5B, Byte 0x41, Quiet]"
  have d: "dropWhile (\<lambda>x. x = Quiet) (input ?up) = Byte 0x1B # [Byte 0x5B, Byte 0x41, Quiet]"
    by (simp add: fresh_fields)
  have go: "fst (next_event 0 ?up)"
    by (simp add: next_event_goes_on [OF d])
  have ks: "turn_key_sequence 0 ?up = [0x1B, 0x5B, 0x41]"
    using turn_key_sequence_stream [OF d, of 0] by (simp add: deliver_def fetch_def)
  have up: "map_of virtual_key_map (turn_key_sequence 0 ?up) = Some UP_ARROW"
    by (simp add: ks virtual_key_map_def)
  have inp: "input (proc_of (next_event 0 ?up)) = [Quiet]"
    using next_event_input [OF d, of 0] by (simp add: deliver_def)
  have one: "fst (next_event 0 (fresh [Byte b])) \<and> turn_key_sequence 0 (fresh [Byte b]) = [b]"
    if "b \<noteq> 0x1B" "b \<noteq> 0x71" for b
  proof -
    have e: "dropWhile (\<lambda>x. x = Quiet) (input (fresh [Byte b])) = Byte b # []"
      by (simp add: fresh_fields)
    show ?thesis
      using that turn_key_sequence_stream [OF e, of 0] by (simp add: next_event_goes_on [OF e])
  qed
  have enter: "map_of virtual_key_map (turn_key_sequence 0 (fresh [Byte 0x0A])) = Some ENTER"
    and tab: "map_of virtual_key_map (turn_key_sequence 0 (fresh [Byte 0x09])) = Some TAB"
    and bs: "map_of virtual_key_map (turn_key_sequence 0 (fresh [Byte 0x7F])) = Some BACKSPACE"
    using one [of "0x0A"] one [of "0x09"] one [of "0x7F"] by (simp_all add: virtual_key_map_def)
  show ?thesis
    using mapped_sequence_gives_its_key [OF go up]
      mapped_sequence_gives_its_key [OF _ enter]
      mapped_sequence_gives_its_key [OF _ tab]
      mapped_sequence_gives_its_key [OF _ bs]
      one [of "0x0A"] one [of "0x09"] one [of "0x7F"] go up inp
    by (simp add: fresh_fields)
qed

text \<open>
  Claim C10. When the poll after the escape byte returns a byte \<open>b\<close>, and the bytes the
  last read returns (the first ten of those that have arrived) are \<open>pre\<close>, a NUL, and
  \<open>post\<close>, with no NUL in \<open>pre\<close>, then the key sequence that is looked up is the
  escape byte, \<open>b\<close> and \<open>pre\<close>: the NUL and \<open>post\<close> are not in it, though the read
  returned their count too and took them from the input.
\<close>

theorem bytes_from_the_first_nul_are_dropped:
  assumes "dropWhile (\<lambda>x. x = Quiet) (input w) = Byte 0x1B # Byte b # rest"
    and "take 10 (avail rest) = pre @ 0 # post"
    and "0 \<notin> set pre"
  shows "turn_key_sequence c w = [0x1B, b] @ pre
       \<and> rd_log (proc_of (next_event c w)) = rd_log w @
           [(True, 1, 1), (False, 1, 1), (False, 10, of_nat (length pre + 1 + length post))]
       \<and> input (proc_of (next_event c w)) = drop (length pre + 1 + length post) rest"
proof -
  have tw: "takeWhile (\<lambda>x. x \<noteq> 0) (pre @ 0 # post) = pre"
    using assms(3) by (auto simp: takeWhile_stops takeWhile_eq_all_conv)
  obtain x rest' where rest: "rest = Byte x # rest'"
    using assms(2) by (cases rest rule: avail.cases) simp_all
  have "deliver False 10 rest
      = ((of_nat (length (take 10 (avail rest))), take 10 (avail rest)),
         drop (length (take 10 (avail rest))) rest)"
    unfolding rest by (simp add: deliver_def Let_def)
  then have d10: "deliver False 10 rest
      = ((of_nat (length pre + 1 + length post), pre @ 0 # post),
         drop (length pre + 1 + length post) rest)"
    unfolding assms(2) by simp
  have ks: "turn_key_sequence c w = [0x1B, b] @ pre"
    using assms(2) tw deliver_poll_Byte [of b rest]
    by (simp add: turn_key_sequence_stream [OF assms(1)] fetch_def)
  have lg: "rd_log (proc_of (next_event c w)) = rd_log w @
           [(True, 1, 1), (False, 1, 1), (False, 10, of_nat (length pre + 1 + length post))]"
    using d10 deliver_poll_Byte [of b rest] by (simp add: next_event_rd_log [OF assms(1)])
  have inp: "input (proc_of (next_event c w)) = drop (length pre + 1 + length post) rest"
    using d10 deliver_poll_Byte [of b rest] by (simp add: next_event_input [OF assms(1)])
  show ?thesis
    using ks lg inp by simp
qed

theorem bytes_from_the_first_nul_are_dropped_witness:
  "dropWhile (\<lambda>x. x = Quiet)
      (input (fresh [Byte 0x1B, Byte 0x5B, Byte 0x41, Byte 0, Byte 0x42, Byte 0x43, Quiet]))
     = Byte 0x1B # Byte 0x5B # [Byte 0x41, Byte 0, Byte 0x42, Byte 0x43, Quiet]
   \<and> take 10 (avail [Byte 0x41, Byte 0, Byte 0x42, Byte 0x43, Quiet]) = [0x41] @ 0 # [0x42, 0x43]
   \<and> 0 \<notin> set [0x41 :: byte]
   \<and> turn_key_sequence 0
        (fresh [Byte 0x1B, Byte 0x5B, Byte 0x41, Byte 0, Byte 0x42, Byte 0x43, Quiet])
       = [0x1B, 0x5B, 0x41]
   \<and> rd_log (proc_of (next_event 0
        (fresh [Byte 0x1B, Byte 0x5B, Byte 0x41, Byte 0, Byte 0x42, Byte 0x43, Quiet])))
       = [(True, 1, 1), (False, 1, 1), (False, 10, 4)]
   \<and> input (proc_of (next_event 0
        (fresh [Byte 0x1B, Byte 0x5B, Byte 0x41, Byte 0, Byte 0x42, Byte 0x43, Quiet])))
       = [Quiet]
   \<and> events (stdout (proc_of (next_event 0
        (fresh [Byte 0x1B, Byte 0x5B, Byte 0x41, Byte 0, Byte 0x42, Byte 0x43, Quiet]))))
       = [Key UP_ARROW]"
proof -
  let ?w = "fresh [Byte 0x1B, Byte 0x5B, Byte 0x41, Byte 0, Byte 0x42, Byte 0x43, Quiet]"
  have d: "dropWhile (\<lambda>x. x = Quiet) (input ?w)
      = Byte 0x1B # Byte 0x5B # [Byte 0x41, Byte 0, Byte 0x42, Byte 0x43, Quiet]"
    by (simp add: fresh_fields)
  have t: "take 10 (avail [Byte 0x41, Byte 0, Byte 0x42, Byte 0x43, Quiet]) = [0x41] @ 0 # [0x42, 0x43]"
    by simp
  have n: "0 \<notin> set [0x41 :: byte]"
    by simp
  have go: "fst (next_event 0 ?w)"
    by (simp add: next_event_goes_on [OF d])
  note r = bytes_from_the_first_nul_are_dropped [OF d t n, of 0]
  have ev: "events (stdout (proc_of (next_event 0 ?w))) = [Key UP_ARROW]"
    using r go by (simp add: next_event_events fresh_fields virtual_key_map_def)
  show ?thesis
    using r d t ev by (simp add: fresh_fields)
qed

text \<open>
  Claim C5. The map has 22 entries with 22 different keys, the ones listed; and
  whatever the state of the process and its input, neither one turn of the loop nor the
  whole of \<^verbatim>\<open>main\<close>, started with nothing printed, reports \<open>F1\<close>, \<open>F10\<close>, \<open>F11\<close>,
  \<open>F12\<close> or \<open>none\<close> as a key.
\<close>

theorem keys_absent_from_the_map_are_never_reported:
  "length virtual_key_map = 22
   \<and> distinct (map fst virtual_key_map)
   \<and> set virtual_key_map =
       {([0x1B], ESC),
        ([0x1B, 0x5B, 0x4F, 0x51], F2), ([0x1B, 0x5B, 0x4F, 0x52], F3),
        ([0x1B, 0x5B, 0x4F, 0x53], F4),
        ([0x1B, 0x5B, 0x31, 0x35, 0x7E], F5), ([0x1B, 0x5B, 0x31, 0x37, 0x7E], F6),
        ([0x1B, 0x5B, 0x31, 0x38, 0x7E], F7), ([0x1B, 0x5B, 0x31, 0x39, 0x7E], F8),
        ([0x1B, 0x5B, 0x32, 0x30, 0x7E], F9),
        ([0x1B, 0x5B, 0x48], HOME), ([0x1B, 0x5B, 0x46], END),
        ([0x1B, 0x5B, 0x41], UP_ARROW), ([0x1B, 0x5B, 0x42], DOWN_ARROW),
        ([0x1B, 0x5B, 0x43], RIGHT_ARROW), ([0x1B, 0x5B, 0x44], LEFT_ARROW),
        ([0x1B, 0x5B, 0x35, 0x7E], PAGE_UP), ([0x1B, 0x5B, 0x36, 0x7E], PAGE_DOWN),
        ([0x1B, 0x5B, 0x32, 0x7E], INSERT), ([0x1B, 0x5B, 0x33, 0x7E], DELETE),
        ([0x7F], BACKSPACE), ([0x0A], ENTER), ([0x09], TAB)}
   \<and> Key F1 \<notin> set (events (stdout (proc_of (next_event c (w\<lparr>stdout := []\<rparr>)))))
   \<and> Key F10 \<notin> set (events (stdout (proc_of (next_event c (w\<lparr>stdout := []\<rparr>)))))
   \<and> Key F11 \<notin> set (events (stdout (proc_of (next_event c (w\<lparr>stdout := []\<rparr>)))))
   \<and> Key F12 \<notin> set (events (stdout (proc_of (next_event c (w\<lparr>stdout := []\<rparr>)))))
   \<and> Key none \<notin> set (events (stdout (proc_of (next_event c (w\<lparr>stdout := []\<rparr>)))))
   \<and> Key F1 \<notin> set (events (stdout (snd (main (w\<lparr>stdout := []\<rparr>)))))
   \<and> Key F10 \<notin> set (events (stdout (snd (main (w\<lparr>stdout := []\<rparr>)))))
   \<and> Key F11 \<notin> set (events (stdout (snd (main (w\<lparr>stdout := []\<rparr>)))))
   \<and> Key F12 \<notin> set (events (stdout (snd (main (w\<lparr>stdout := []\<rparr>)))))
   \<and> Key none \<notin> set (events (stdout (snd (main (w\<lparr>stdout := []\<rparr>)))))"
proof -
  have len: "length virtual_key_map = 22"
    by (simp add: virtual_key_map_def)
  have dist: "distinct (map fst virtual_key_map)"
    by (simp add: virtual_key_map_def)
  have entries: "set virtual_key_map =
       {([0x1B], ESC),
        ([0x1B, 0x5B, 0x4F, 0x51], F2), ([0x1B, 0x5B, 0x4F, 0x52], F3),
        ([0x1B, 0x5B, 0x4F, 0x53], F4),
        ([0x1B, 0x5B, 0x31, 0x35, 0x7E], F5), ([0x1B, 0x5B, 0x31, 0x37, 0x7E], F6),
        ([0x1B, 0x5B, 0x31, 0x38, 0x7E], F7), ([0x1B, 0x5B, 0x31, 0x39, 0x7E], F8),
        ([0x1B, 0x5B, 0x32, 0x30, 0x7E], F9),
        ([0x1B, 0x5B, 0x48], HOME), ([0x1B, 0x5B, 0x46], END),
        ([0x1B, 0x5B, 0x41], UP_ARROW), ([0x1B, 0x5B, 0x42], DOWN_ARROW),
        ([0x1B, 0x5B, 0x43], RIGHT_ARROW), ([0x1B, 0x5B, 0x44], LEFT_ARROW),
        ([0x1B, 0x5B, 0x35, 0x7E], PAGE_UP), ([0x1B, 0x5B, 0x36, 0x7E], PAGE_DOWN),
        ([0x1B, 0x5B, 0x32, 0x7E], INSERT), ([0x1B, 0x5B, 0x33, 0x7E], DELETE),
        ([0x7F], BACKSPACE), ([0x0A], ENTER), ([0x09], TAB)}"
    by (simp add: virtual_key_map_def)
  have absent: "k \<notin> snd ` set virtual_key_map" if "k \<in> {F1, F10, F11, F12, none}" for k
    using that unfolding virtual_key_map_values by auto
  have turn: "Key k \<notin> set (events (stdout (proc_of (next_event c (w\<lparr>stdout := []\<rparr>)))))"
    if "k \<in> {F1, F10, F11, F12, none}" for k
    using next_event_keys [of k c "w\<lparr>stdout := []\<rparr>"] absent [OF that] by auto
  have run: "Key k \<notin> set (events (stdout (snd (main (w\<lparr>stdout := []\<rparr>)))))"
    if "k \<in> {F1, F10, F11, F12, none}" for k
    using main_keys [of k "w\<lparr>stdout := []\<rparr>"] absent [OF that] by auto
  show ?thesis
    using len dist entries turn [of F1] turn [of F10] turn [of F11] turn [of F12] turn [of none]
      run [of F1] run [of F10] run [of F11] run [of F12] run [of none]
    by (simp only: insertI1 insertI2 simp_thms)
qed

text \<open>
  Claim C6. A turn has no error result. Whether the loop goes on after it is decided
  by the waiting read alone: it goes on exactly when that read returned one byte other
  than \<^verbatim>\<open>q\<close>. A turn reads once, twice or three times, the waiting read for one byte,
  then the poll for one byte, then the poll for ten, none of them a second time. And
  when the poll after an escape byte returns zero bytes, or fails, the turn goes on and
  reports the escape key.
\<close>

theorem only_the_waiting_read_ends_the_loop:
  "(fst (next_event c w) \<longleftrightarrow>
      fst (fst (deliver True 1 (input w))) = 1
      \<and> fetch c (snd (fst (deliver True 1 (input w)))) \<noteq> 0x71)
   \<and> map (\<lambda>(b, n, r). (b, n)) (drop (length (rd_log w)) (rd_log (proc_of (next_event c w))))
       \<in> {[(True, 1)], [(True, 1), (False, 1)], [(True, 1), (False, 1), (False, 10)]}
   \<and> (dropWhile (\<lambda>x. x = Quiet) (input w) = Byte 0x1B # rest
        \<and> fst (fst (deliver False 1 rest)) \<noteq> 1
      \<longrightarrow> fst (next_event c w)
          \<and> events (stdout (proc_of (next_event c w))) = events (stdout w) @ [Key ESC]
          \<and> rd_log (proc_of (next_event c w))
              = rd_log w @ [(True, 1, 1), (False, 1, fst (fst (deliver False 1 rest)))])"
proof -
  have a: "fst (next_event c w) \<longleftrightarrow>
      fst (fst (deliver True 1 (input w))) = 1
      \<and> fetch c (snd (fst (deliver True 1 (input w)))) \<noteq> 0x71"
    by (simp add: next_event_unfold loop_cond_fields)
  have b: "fst (next_event c w)
          \<and> events (stdout (proc_of (next_event c w))) = events (stdout w) @ [Key ESC]
          \<and> rd_log (proc_of (next_event c w))
              = rd_log w @ [(True, 1, 1), (False, 1, fst (fst (deliver False 1 rest)))]"
    if d: "dropWhile (\<lambda>x. x = Quiet) (input w) = Byte 0x1B # rest"
      and z: "fst (fst (deliver False 1 rest)) \<noteq> 1"
  proof -
    have go: "fst (next_event c w)"
      by (simp add: next_event_goes_on [OF d])
    have ks: "turn_key_sequence c w = [0x1B]"
      using z by (simp add: turn_key_sequence_stream [OF d])
    show ?thesis
      using z by (simp add: next_event_events go ks virtual_key_map_def next_event_rd_log [OF d])
  qed
  show ?thesis
    using a b next_event_log_shape [of w c] by blast
qed

theorem only_the_waiting_read_ends_the_loop_witness:
  "dropWhile (\<lambda>x. x = Quiet) (input (fresh [Byte 0x1B, Quiet, Byte 0x41]))
     = Byte 0x1B # [Quiet, Byte 0x41]
   \<and> fst (fst (deliver False 1 [Quiet, Byte 0x41])) = 0
   \<and> fst (next_event 0 (fresh [Byte 0x1B, Quiet, Byte 0x41]))
   \<and> events (stdout (proc_of (next_event 0 (fresh [Byte 0x1B, Quiet, Byte 0x41])))) = [Key ESC]
   \<and> rd_log (proc_of (next_event 0 (fresh [Byte 0x1B, Quiet, Byte 0x41])))
       = [(True, 1, 1), (False, 1, 0)]
   \<and> dropWhile (\<lambda>x. x = Quiet) (input (fresh [Byte 0x1B, Fault, Byte 0x41]))
     = Byte 0x1B # [Fault, Byte 0x41]
   \<and> fst (fst (deliver False 1 [Fault, Byte 0x41])) = - 1
   \<and> fst (next_event 0 (fresh [Byte 0x1B, Fault, Byte 0x41]))
   \<and> events (stdout (proc_of (next_event 0 (fresh [Byte 0x1B, Fault, Byte 0x41])))) = [Key ESC]
   \<and> rd_log (proc_of (next_event 0 (fresh [Byte 0x1B, Fault, Byte 0x41])))
       = [(True, 1, 1), (False, 1, - 1)]"
proof -
  let ?q = "fresh [Byte 0x1B, Quiet, Byte 0x41]"
  let ?f = "fresh [Byte 0x1B, Fault, Byte 0x41]"
  have dq: "dropWhile (\<lambda>x. x = Quiet) (input ?q) = Byte 0x1B # [Quiet, Byte 0x41]"
    and df: "dropWhile (\<lambda>x. x = Quiet) (input ?f) = Byte 0x1B # [Fault, Byte 0x41]"
    by (simp_all add: fresh_fields)
  have rq: "fst (fst (deliver False 1 [Quiet, Byte 0x41])) = 0"
    and rf: "fst (fst (deliver False 1 [Fault, Byte 0x41])) = - 1"
    by (simp_all add: deliver_def)
  have zq: "fst (fst (deliver False 1 [Quiet, Byte 0x41])) \<noteq> 1"
    and zf: "fst (fst (deliver False 1 [Fault, Byte 0x41])) \<noteq> 1"
    by (simp_all add: deliver_def)
  from only_the_waiting_read_ends_the_loop [of 0 ?q "[Quiet, Byte 0x41]"] dq zq have
    "fst (next_event 0 ?q)
     \<and> events (stdout (proc_of (next_event 0 ?q))) = events (stdout ?q) @ [Key ESC]
     \<and> rd_log (proc_of (next_event 0 ?q))
         = rd_log ?q @ [(True, 1, 1), (False, 1, fst (fst (deliver False 1 [Quiet, Byte 0x41])))]"
    by blast
  moreover
  from only_the_waiting_read_ends_the_loop [of 0 ?f "[Fault, Byte 0x41]"] df zf have
    "fst (next_event 0 ?f)
     \<and> events (stdout (proc_of (next_event 0 ?f))) = events (stdout ?f) @ [Key ESC]
     \<and> rd_log (proc_of (next_event 0 ?f))
         = rd_log ?f @ [(True, 1, 1), (False, 1, fst (fst (deliver False 1 [Fault, Byte 0x41])))]"
    by blast
  ultimately show ?thesis
    using dq df rq rf by (simp add: fresh_fields)
qed

text \<open>
  Claim C7, as the specification has it, fails twice. When \<^verbatim>\<open>q\<close> is the first byte of
  a turn the program ends and has reported nothing for it: no character event carries
  that \<^verbatim>\<open>q\<close>. And when a \<^verbatim>\<open>q\<close> comes right behind an escape byte it is reported as a
  character and the program goes on, here to report the \<^verbatim>\<open>a\<close> that follows.
\<close>

theorem q_reported_then_program_ends_counterexample:
  "events (stdout (snd (main (fresh [Byte 0x71])))) = []
   \<and> Character 0x71 \<notin> set (events (stdout (snd (main (fresh [Byte 0x71])))))
   \<and> events (stdout (snd (main
        (fresh [Byte 0x1B, Byte 0x71, Quiet, Byte 0x61, Byte 0x71, Byte 0x62]))))
       = [Character 0x1B, Character 0x71, Character 0x61]"
proof -
  have a: "events (stdout (snd (main (fresh [Byte 0x71])))) = events (stdout (fresh [Byte 0x71])) @ []"
  proof (rule main_events_loop)
    fix v :: proc
    assume "input v = input (fresh [Byte 0x71])"
    then have "input v = map Byte [] @ Byte 0x71 # []"
      by (simp add: fresh_fields)
    from event_loop_plain [OF _ _ this, of 0]
    show "events (stdout (event_loop 0 v)) = events (stdout v) @ []"
      by simp
  qed
  have b: "events (stdout (snd (main
        (fresh [Byte 0x1B, Byte 0x71, Quiet, Byte 0x61, Byte 0x71, Byte 0x62]))))
       = events (stdout (fresh [Byte 0x1B, Byte 0x71, Quiet, Byte 0x61, Byte 0x71, Byte 0x62]))
         @ [Character 0x1B, Character 0x71, Character 0x61]"
  proof (rule main_events_loop)
    fix v :: proc
    assume "input v = input (fresh [Byte 0x1B, Byte 0x71, Quiet, Byte 0x61, Byte 0x71, Byte 0x62])"
    then have "input v = Byte 0x1B # Byte 0x71 # Quiet # map Byte [0x61] @ Byte 0x71 # [Byte 0x62]"
      by (simp add: fresh_fields)
    from event_loop_escape_q [OF _ _ this, of 0]
    show "events (stdout (event_loop 0 v))
        = events (stdout v) @ [Character 0x1B, Character 0x71, Character 0x61]"
      by (simp add: virtual_key_map_def)
  qed
  show ?thesis
    using a b by (simp add: fresh_fields)
qed

text \<open>
  Claim C7, amended. \<^verbatim>\<open>main\<close> returns 0, and so does the process. The loop condition
  ends the loop when the waiting read of a turn returns \<^verbatim>\<open>q\<close>, before the body runs:
  the body never gets \<^verbatim>\<open>q\<close> as its first byte, and nothing is reported for that \<^verbatim>\<open>q\<close>.
  A \<^verbatim>\<open>q\<close> right behind an escape byte is reported as a character, after the escape
  byte, and the loop goes on. When the input is bytes other than the escape byte and
  \<^verbatim>\<open>q\<close>, then a \<^verbatim>\<open>q\<close>, the program reports each of those bytes, as a key of the map
  or as a character, and nothing after them; and the same holds behind an escape byte,
  a \<^verbatim>\<open>q\<close> and a silence, which are reported as two characters first.
\<close>

theorem q_first_in_a_turn_ends_the_program:
  "fst (main w) = 0 \<and> fst (program w) = 0
   \<and> (fst (loop_cond c w) \<longrightarrow> fst (snd (loop_cond c w)) \<noteq> 0x71)
   \<and> (dropWhile (\<lambda>x. x = Quiet) (input w) = Byte 0x71 # rest
      \<longrightarrow> \<not> fst (next_event c w)
          \<and> event_loop c w = proc_of (next_event c w)
          \<and> events (stdout (event_loop c w)) = events (stdout w)
          \<and> input (event_loop c w) = rest)
   \<and> (dropWhile (\<lambda>x. x = Quiet) (input w) = Byte 0x1B # Byte 0x71 # rest
      \<longrightarrow> fst (next_event c w)
          \<and> events (stdout (proc_of (next_event c w))) = events (stdout w) @
              Character 0x1B # Character 0x71
                # map Character (takeWhile (\<lambda>x. x \<noteq> 0) (take 10 (avail rest))))
   \<and> (0x71 \<notin> set bs \<and> 0x1B \<notin> set bs \<and> input w = map Byte bs @ Byte 0x71 # rest
      \<longrightarrow> events (stdout (snd (main w))) = events (stdout w) @
            map (\<lambda>b. case map_of virtual_key_map [b] of Some v \<Rightarrow> Key v | None \<Rightarrow> Character b) bs)
   \<and> (0x71 \<notin> set bs \<and> 0x1B \<notin> set bs
        \<and> input w = Byte 0x1B # Byte 0x71 # Quiet # map Byte bs @ Byte 0x71 # rest
      \<longrightarrow> events (stdout (snd (main w))) = events (stdout w) @
            Character 0x1B # Character 0x71 #
            map (\<lambda>b. case map_of virtual_key_map [b] of Some v \<Rightarrow> Key v | None \<Rightarrow> Character b) bs)"
proof -
  have status: "fst (main w) = 0" "fst (program w) = 0"
    by (simp_all add: program_def split_beta main_fields)
  have body: "fst (loop_cond c w) \<longrightarrow> fst (snd (loop_cond c w)) \<noteq> 0x71"
    by (simp add: loop_cond_not_q)
  have stop: "\<not> fst (next_event c w) \<and> event_loop c w = proc_of (next_event c w)
          \<and> events (stdout (event_loop c w)) = events (stdout w)
          \<and> input (event_loop c w) = rest"
    if d: "dropWhile (\<lambda>x. x = Quiet) (input w) = Byte 0x71 # rest"
  proof -
    have s: "\<not> fst (next_event c w)"
      by (simp add: next_event_goes_on [OF d])
    then have e: "event_loop c w = proc_of (next_event c w)"
      by (subst event_loop_unfold) simp
    show ?thesis
      using s e by (simp add: next_event_events next_event_input [OF d])
  qed
  have esc: "fst (next_event c w)
          \<and> events (stdout (proc_of (next_event c w))) = events (stdout w) @
              Character 0x1B # Character 0x71
                # map Character (takeWhile (\<lambda>x. x \<noteq> 0) (take 10 (avail rest)))"
    if d: "dropWhile (\<lambda>x. x = Quiet) (input w) = Byte 0x1B # Byte 0x71 # rest"
    using escape_q_turn(1,2) [OF d] by simp
  have run: "events (stdout (snd (main w))) = events (stdout w) @
            map (\<lambda>b. case map_of virtual_key_map [b] of Some v \<Rightarrow> Key v | None \<Rightarrow> Character b) bs"
    if h: "0x71 \<notin> set bs" "0x1B \<notin> set bs" "input w = map Byte bs @ Byte 0x71 # rest"
  proof (rule main_events_loop)
    fix v :: proc
    assume "input v = input w"
    then have "input v = map Byte bs @ Byte 0x71 # rest"
      by (simp add: h(3))
    from event_loop_plain [OF h(1) h(2) this, of 0]
    show "events (stdout (event_loop 0 v)) = events (stdout v) @
            map (\<lambda>b. case map_of virtual_key_map [b] of Some v \<Rightarrow> Key v | None \<Rightarrow> Character b) bs"
      by simp
  qed
  have past: "events (stdout (snd (main w))) = events (stdout w) @
            Character 0x1B # Character 0x71 #
            map (\<lambda>b. case map_of virtual_key_map [b] of Some v \<Rightarrow> Key v | None \<Rightarrow> Character b) bs"
    if h: "0x71 \<notin> set bs" "0x1B \<notin> set bs"
      "input w = Byte 0x1B # Byte 0x71 # Quiet # map Byte bs @ Byte 0x71 # rest"
  proof (rule main_events_loop)
    fix v :: proc
    assume "input v = input w"
    then have "input v = Byte 0x1B # Byte 0x71 # Quiet # map Byte bs @ Byte 0x71 # rest"
      by (simp add: h(3))
    from event_loop_escape_q [OF h(1) h(2) this, of 0]
    show "events (stdout (event_loop 0 v)) = events (stdout v) @
            Character 0x1B # Character 0x71 #
            map (\<lambda>b. case map_of virtual_key_map [b] of Some v \<Rightarrow> Key v | None \<Rightarrow> Character b) bs"
      by simp
  qed
  show ?thesis
    using status body stop esc run past by blast
qed

theorem q_first_in_a_turn_ends_the_program_witness:
  "fst (loop_cond 0 (fresh [Byte 0x61])) \<and> fst (snd (loop_cond 0 (fresh [Byte 0x61]))) \<noteq> 0x71
   \<and> dropWhile (\<lambda>x. x = Quiet) (input (fresh [Byte 0x71, Byte 0x7A])) = Byte 0x71 # [Byte 0x7A]
   \<and> \<not> fst (next_event 0 (fresh [Byte 0x71, Byte 0x7A]))
   \<and> events (stdout (event_loop 0 (fresh [Byte 0x71, Byte 0x7A]))) = []
   \<and> input (event_loop 0 (fresh [Byte 0x71, Byte 0x7A])) = [Byte 0x7A]
   \<and> dropWhile (\<lambda>x. x = Quiet) (input (fresh [Byte 0x1B, Byte 0x71]))
       = Byte 0x1B # Byte 0x71 # []
   \<and> fst (next_event 0 (fresh [Byte 0x1B, Byte 0x71]))
   \<and> events (stdout (proc_of (next_event 0 (fresh [Byte 0x1B, Byte 0x71]))))
       = [Character 0x1B, Character 0x71]
   \<and> 0x71 \<notin> set [0x61, 0x0A :: byte] \<and> 0x1B \<notin> set [0x61, 0x0A :: byte]
   \<and> input (fresh [Byte 0x61, Byte 0x0A, Byte 0x71, Byte 0x7A])
       = map Byte [0x61, 0x0A] @ Byte 0x71 # [Byte 0x7A]
   \<and> fst (program (fresh [Byte 0x61, Byte 0x0A, Byte 0x71, Byte 0x7A])) = 0
   \<and> events (stdout (snd (main (fresh [Byte 0x61, Byte 0x0A, Byte 0x71, Byte 0x7A]))))
       = [Character 0x61, Key ENTER]
   \<and> 0x71 \<notin> set [0x61 :: byte] \<and> 0x1B \<notin> set [0x61 :: byte]
   \<and> input (fresh [Byte 0x1B, Byte 0x71, Quiet, Byte 0x61, Byte 0x71, Byte 0x62])
       = Byte 0x1B # Byte 0x71 # Quiet # map Byte [0x61] @ Byte 0x71 # [Byte 0x62]
   \<and> events (stdout (snd (main
        (fresh [Byte 0x1B, Byte 0x71, Quiet, Byte 0x61, Byte 0x71, Byte 0x62]))))
       = [Character 0x1B, Character 0x71, Character 0x61]"
proof -
  let ?a = "fresh [Byte 0x61]"
  let ?q = "fresh [Byte 0x71, Byte 0x7A]"
  let ?e = "fresh [Byte 0x1B, Byte 0x71]"
  let ?r = "fresh [Byte 0x61, Byte 0x0A, Byte 0x71, Byte 0x7A]"
  let ?p = "fresh [Byte 0x1B, Byte 0x71, Quiet, Byte 0x61, Byte 0x71, Byte 0x62]"
  have ga: "fst (loop_cond 0 ?a)"
    by (simp add: loop_cond_fields fresh_fields deliver_def fetch_def)
  have dq: "dropWhile (\<lambda>x. x = Quiet) (input ?q) = Byte 0x71 # [Byte 0x7A]"
    and de: "dropWhile (\<lambda>x. x = Quiet) (input ?e) = Byte 0x1B # Byte 0x71 # []"
    by (simp_all add: fresh_fields)
  have sr: "0x71 \<notin> set [0x61, 0x0A :: byte]" "0x1B \<notin> set [0x61, 0x0A :: byte]"
    and sp: "0x71 \<notin> set [0x61 :: byte]" "0x1B \<notin> set [0x61 :: byte]"
    by simp_all
  have ir: "input ?r = map Byte [0x61, 0x0A] @ Byte 0x71 # [Byte 0x7A]"
    and ip: "input ?p = Byte 0x1B # Byte 0x71 # Quiet # map Byte [0x61] @ Byte 0x71 # [Byte 0x62]"
    by (simp_all add: fresh_fields)
  from q_first_in_a_turn_ends_the_program [of ?a 0] ga
  have body: "fst (snd (loop_cond 0 ?a)) \<noteq> 0x71"
    by blast
  from q_first_in_a_turn_ends_the_program [of ?q 0 "[Byte 0x7A]"] dq
  have stop: "\<not> fst (next_event 0 ?q)
      \<and> events (stdout (event_loop 0 ?q)) = events (stdout ?q)
      \<and> input (event_loop 0 ?q) = [Byte 0x7A]"
    by blast
  from q_first_in_a_turn_ends_the_program [of ?e 0 "[]"] de
  have esc: "fst (next_event 0 ?e)
      \<and> events (stdout (proc_of (next_event 0 ?e))) = events (stdout ?e) @
          Character 0x1B # Character 0x71
            # map Character (takeWhile (\<lambda>x. x \<noteq> 0) (take 10 (avail [])))"
    by blast
  from q_first_in_a_turn_ends_the_program [of ?r 0 "[Byte 0x7A]" "[0x61, 0x0A]"] sr ir
  have run: "fst (program ?r) = 0
      \<and> events (stdout (snd (main ?r))) = events (stdout ?r) @
          map (\<lambda>b. case map_of virtual_key_map [b] of Some v \<Rightarrow> Key v | None \<Rightarrow> Character b)
            [0x61, 0x0A]"
    by blast
  from q_first_in_a_turn_ends_the_program [of ?p 0 "[Byte 0x62]" "[0x61]"] sp ip
  have past: "events (stdout (snd (main ?p))) = events (stdout ?p) @
          Character 0x1B # Character 0x71 #
          map (\<lambda>b. case map_of virtual_key_map [b] of Some v \<Rightarrow> Key v | None \<Rightarrow> Character b)
            [0x61]"
    by blast
  show ?thesis
    using ga body dq stop de esc sr ir run sp ip past
    by (simp add: fresh_fields virtual_key_map_def)
qed

end
